theory Spec2Isabelle
  imports Complex_Main "HOL-Library.AList"
begin

section \<open>Strings\<close>

text \<open>
  A Python \<open>str\<close> is modelled as a \<open>string\<close>; a \<open>char\<close> stands for a code point below 256.
  \<open>isspace\<close> is the class \<open>\s\<close> of the \<open>re\<close> module on such code points.
\<close>

definition NEW_LINE :: char where
  "NEW_LINE = CHR 0x0A"

definition isspace :: "char \<Rightarrow> bool" where
  "isspace c = (of_char c \<in> {9, 10, 11, 12, 13, 28, 29, 30, 31, 32, 133, 160 :: nat})"

text \<open>
  \<open>s.split(sep)\<close> for a separator of one character. The result is never the empty list,
  so the first branch of the \<open>case\<close> is never taken.
\<close>

fun str_split :: "char \<Rightarrow> string \<Rightarrow> string list" where
  "str_split sep [] = [[]]"
| "str_split sep (c # cs) =
     (case str_split sep cs of
        [] \<Rightarrow> []
      | r # rs \<Rightarrow> if c = sep then [] # r # rs else (c # r) # rs)"

text \<open>\<open>s.rstrip(c)\<close> for one character: every trailing occurrence goes.\<close>

definition rstrip :: "char \<Rightarrow> string \<Rightarrow> string" where
  "rstrip c s = rev (dropWhile (\<lambda>x. x = c) (rev s))"

text \<open>\<open>s.find(sub)\<close>: the index of the first occurrence, or \<open>-1\<close>.\<close>

fun find_from :: "nat \<Rightarrow> string \<Rightarrow> string \<Rightarrow> int" where
  "find_from i sub [] = (if sub = [] then int i else - 1)"
| "find_from i sub (c # cs) =
     (if take (length sub) (c # cs) = sub then int i else find_from (Suc i) sub cs)"

definition str_find :: "string \<Rightarrow> string \<Rightarrow> int" where
  "str_find s sub = find_from 0 sub s"

text \<open>\<open>s.replace(old, new)\<close>: every occurrence, left to right, without overlap.\<close>

function replace :: "string \<Rightarrow> string \<Rightarrow> string \<Rightarrow> string" where
  "replace old new [] = (if old = [] then new else [])"
| "replace old new (c # cs) =
     (if old = [] then new @ c # replace old new cs
      else if take (length old) (c # cs) = old
        then new @ replace old new (drop (length old - 1) cs)
      else c # replace old new cs)"
  by pat_completeness auto
termination
  by (relation "measure (\<lambda>(old, new, s). length s)") auto

section \<open>Entity classifier\<close>

text \<open>
  The four line patterns, matched with \<open>re.match\<close>. In each, \<open>\s*\<close> is followed by a
  character that is not white space, so it takes exactly the leading white space.
  \<open>dot_star_end\<close> is the tail \<open>(.*)$\<close>: \<open>.\<close> stops at a newline and \<open>$\<close> holds at the end
  or before a final newline.
\<close>

definition dot_star_end :: "string \<Rightarrow> string option" where
  "dot_star_end r =
     (let a = takeWhile (\<lambda>c. c \<noteq> NEW_LINE) r; b = dropWhile (\<lambda>c. c \<noteq> NEW_LINE) r
      in if b = [] \<or> b = [NEW_LINE] then Some a else None)"

text \<open>
  The tail \<open>(.*[^ ])$\<close> of the wrong-answer pattern: \<open>[^ ]\<close> also takes a newline, and the
  greedy \<open>.*\<close> is tried at its longest first.
\<close>

definition dot_star_nonspace_end :: "string \<Rightarrow> string option" where
  "dot_star_nonspace_end r =
     (let a = takeWhile (\<lambda>c. c \<noteq> NEW_LINE) r; b = dropWhile (\<lambda>c. c \<noteq> NEW_LINE) r
      in if b = [NEW_LINE] \<or> b = [NEW_LINE, NEW_LINE] then Some (a @ [NEW_LINE])
         else if a \<noteq> [] \<and> last a \<noteq> CHR '' '' \<and> b = [] then Some a
         else None)"

text \<open>The common head \<open>^(\s*)M(\s)\<close> of the question and answer patterns.\<close>

definition after_marker :: "char \<Rightarrow> string \<Rightarrow> string option" where
  "after_marker m s =
     (case dropWhile isspace s of
        c # w # r \<Rightarrow> if c = m \<and> isspace w then Some r else None
      | _ \<Rightarrow> None)"

definition get_header :: "string \<Rightarrow> string option" where
  "get_header s =
     (let r = dropWhile isspace s
      in if take 2 r = ''# '' then dot_star_end (drop 2 r) else None)"

definition get_question :: "string \<Rightarrow> string option" where
  "get_question s =
     (case after_marker (CHR ''*'') s of None \<Rightarrow> None | Some r \<Rightarrow> dot_star_end r)"

definition get_correct_answer :: "string \<Rightarrow> string option" where
  "get_correct_answer s =
     (case after_marker (CHR ''-'') s of
        None \<Rightarrow> None
      | Some r \<Rightarrow> if take 1 r = ''!'' then dot_star_end (drop 1 r) else None)"

definition get_wrong_answer :: "string \<Rightarrow> string option" where
  "get_wrong_answer s =
     (case after_marker (CHR ''-'') s of None \<Rightarrow> None | Some r \<Rightarrow> dot_star_nonspace_end r)"

definition is_header :: "string \<Rightarrow> bool" where
  "is_header s = (get_header s \<noteq> None)"

definition is_question :: "string \<Rightarrow> bool" where
  "is_question s = (get_question s \<noteq> None)"

definition is_correct_answer :: "string \<Rightarrow> bool" where
  "is_correct_answer s = (get_correct_answer s \<noteq> None)"

definition is_wrong_answer :: "string \<Rightarrow> bool" where
  "is_wrong_answer s = (get_wrong_answer s \<noteq> None)"

text \<open>\<open>re.match(EMPTY_LINE_PATTERN, s)\<close>, the pattern \<open>^\s*$\<close>.\<close>

definition is_empty_line :: "string \<Rightarrow> bool" where
  "is_empty_line s = (\<forall>c \<in> set s. isspace c)"

section \<open>Data model\<close>

text \<open>
  Answers and questions are Python dictionaries. The keys \<open>weight\<close> and \<open>single\<close> are absent
  until the scoring pass sets them. A weight is the value of a Python number, a rational.
\<close>

record answer =
  a_text :: string
  correct :: bool
  weight :: "rat option"

record question =
  q_text :: string
  answers :: "answer list"
  single :: "bool option"

type_synonym document = "(string \<times> question list) list"

datatype error = KeyError string | IOError string

section \<open>Floating-point numbers\<close>

text \<open>
  A Python \<open>float\<close> is an IEEE 754 double, modelled by the rational it denotes. \<open>fl\<close> rounds
  a rational to the nearest double, ties to even (53 bits of precision, subnormals below
  \<open>2 powi - 1022\<close>); overflow does not arise for the values computed here, which lie
  between 0 and 100, and for list lengths, which are below \<open>2 ^ 63\<close>.
\<close>

fun bit_length :: "nat \<Rightarrow> nat" where
  "bit_length n = (if n = 0 then 0 else Suc (bit_length (n div 2)))"

declare bit_length.simps [simp del]

text \<open>The integer \<open>e\<close> with \<open>2 powi e \<le> x < 2 powi (e + 1)\<close>, for \<open>x > 0\<close>.\<close>

definition floor_log2 :: "rat \<Rightarrow> int" where
  "floor_log2 x =
     (if 1 \<le> x then int (bit_length (nat \<lfloor>x\<rfloor>)) - 1
      else - int (bit_length (nat (\<lceil>1 / x\<rceil> - 1))))"

definition round_half_even :: "rat \<Rightarrow> int" where
  "round_half_even x =
     (let f = \<lfloor>x\<rfloor>; d = x - of_int f
      in if d < 1 / 2 then f else if 1 / 2 < d then f + 1 else if even f then f else f + 1)"

definition fl :: "rat \<Rightarrow> rat" where
  "fl x =
     (if x = 0 then 0
      else let a = \<bar>x\<bar>; e = max (floor_log2 a) (- 1022); u = 2 powi (e - 52)
           in sgn x * of_int (round_half_even (a / u)) * u)"

text \<open>\<open>float(n)\<close> and the division of two doubles.\<close>

definition float_of_int :: "int \<Rightarrow> rat" where
  "float_of_int n = fl (of_int n)"

definition float_div :: "rat \<Rightarrow> rat \<Rightarrow> rat" where
  "float_div a b = fl (a / b)"

text \<open>
  \<open>round(x, ndigits)\<close> on a double, \<open>ndigits \<ge> 0\<close>: the decimal nearest to the exact value
  of \<open>x\<close>, ties to even, converted back to the nearest double.
\<close>

definition py_round :: "rat \<Rightarrow> nat \<Rightarrow> rat" where
  "py_round x ndigits = fl (of_int (round_half_even (x * 10 ^ ndigits)) / 10 ^ ndigits)"

section \<open>Scoring completer\<close>

text \<open>
  \<open>completing_dictionary\<close> sets \<open>single\<close> on every question and \<open>weight\<close> on every answer, in
  place, and returns the dictionary; the model returns the updated document.
\<close>

definition complete_question :: "question \<Rightarrow> question" where
  "complete_question q =
     (let correct_answers = filter correct (answers q);
          correct_answer_count = int (length correct_answers);
          correct_answer_count =
            (if correct_answer_count < 1 then 1 else correct_answer_count);
          w = py_round (float_div 100 (float_of_int correct_answer_count)) 7
      in q\<lparr>single := Some (correct_answer_count = 1),
            answers := map (\<lambda>a. a\<lparr>weight := Some (if correct a then w else 0)\<rparr>) (answers q)\<rparr>)"

definition completing_dictionary :: "document \<Rightarrow> document" where
  "completing_dictionary d = map (\<lambda>(key, sec). (key, map complete_question sec)) d"

section \<open>Document builder\<close>

text \<open>
  The parser keeps references to the list and the dictionaries it is filling, and goes on
  changing an object after it has been stored. The model has a store of section lists and
  a store of question objects, addressed by position. \<open>dictionary\<close> maps a caption to the
  address of its list, in insertion order; \<open>cur_section\<close>, the variable \<open>section\<close> of the
  source, is the address of the list being filled (address 0 is the list that exists
  before any header, which no caption refers to).
  \<open>current_question\<close> is either the dictionary \<open>{}\<close> the parser starts with, which is in no
  list and has at most the key \<open>text\<close>, or the address of a question.
\<close>

datatype qref = Initial "string option" | Ref nat

record pstate =
  dictionary :: "(string \<times> nat) list"
  sections :: "nat list list"
  questions :: "question list"
  cur_section :: nat
  current_question :: qref
  current_answer :: "answer option"

definition initial :: pstate where
  "initial = \<lparr>dictionary = [], sections = [[]], questions = [], cur_section = 0,
     current_question = Initial None, current_answer = None\<rparr>"

text \<open>The value at the key \<open>text\<close> of the current question, when the key is there.\<close>

definition cq_text :: "pstate \<Rightarrow> string option" where
  "cq_text st =
     (case current_question st of Initial t \<Rightarrow> t | Ref k \<Rightarrow> Some (q_text (questions st ! k)))"

definition set_cq_text :: "pstate \<Rightarrow> string \<Rightarrow> pstate" where
  "set_cq_text st t =
     (case current_question st of
        Initial _ \<Rightarrow> st\<lparr>current_question := Initial (Some t)\<rparr>
      | Ref k \<Rightarrow> st\<lparr>questions := (questions st)[k := (questions st ! k)\<lparr>q_text := t\<rparr>]\<rparr>)"

text \<open>\<open>current_question['answers'].append(a)\<close>: the initial dictionary has no such key.\<close>

definition append_answer :: "pstate \<Rightarrow> answer \<Rightarrow> error + pstate" where
  "append_answer st a =
     (case current_question st of
        Initial _ \<Rightarrow> Inl (KeyError ''answers'')
      | Ref k \<Rightarrow>
          Inr (st\<lparr>questions :=
            (questions st)[k := (questions st ! k)\<lparr>answers := answers (questions st ! k) @ [a]\<rparr>]\<rparr>))"

text \<open>The two \<open>rstrip\<close> calls at the head of the loop body.\<close>

definition strip_eol :: "string \<Rightarrow> string" where
  "strip_eol row = rstrip NEW_LINE (rstrip (CHR 0x0D) row)"

text \<open>One turn of the loop over the rows.\<close>

definition md_row_step :: "pstate \<Rightarrow> string \<Rightarrow> error + pstate" where
  "md_row_step st row =
     (let md_row = strip_eol row
      in if is_header md_row then
           Inr (st\<lparr>sections := sections st @ [[]],
                   cur_section := length (sections st),
                   dictionary :=
                     AList.update (the (get_header md_row)) (length (sections st)) (dictionary st)\<rparr>)
         else if is_question md_row then
           Inr (st\<lparr>questions := questions st @
                     [\<lparr>q_text = the (get_question md_row), answers = [], single = None\<rparr>],
                   current_question := Ref (length (questions st)),
                   sections := (sections st)
                     [cur_section st := sections st ! cur_section st @ [length (questions st)]]\<rparr>)
         else if is_correct_answer md_row then
           (let a = \<lparr>a_text = the (get_correct_answer md_row), correct = True, weight = None\<rparr>
            in append_answer (st\<lparr>current_answer := Some a\<rparr>) a)
         else if is_wrong_answer md_row then
           (let a = \<lparr>a_text = the (get_wrong_answer md_row), correct = False, weight = None\<rparr>
            in append_answer (st\<lparr>current_answer := Some a\<rparr>) a)
         else if \<not> is_empty_line md_row then
           (let st1 = (if cq_text st = None then set_cq_text st [] else st)
            in Inr (set_cq_text st1 (the (cq_text st1) @ md_row @ [NEW_LINE])))
         else if cq_text st \<noteq> None then
           (if - 1 < str_find (the (cq_text st)) ''```''
            then Inr (set_cq_text st (the (cq_text st) @ md_row @ [NEW_LINE]))
            else Inr st)
         else Inr st)"

fun md_rows :: "pstate \<Rightarrow> string list \<Rightarrow> error + pstate" where
  "md_rows st [] = Inr st"
| "md_rows st (row # rows) =
     (case md_row_step st row of Inl e \<Rightarrow> Inl e | Inr st' \<Rightarrow> md_rows st' rows)"

text \<open>The dictionary as a value: every address replaced by what the store holds there.\<close>

definition view :: "pstate \<Rightarrow> document" where
  "view st =
     map (\<lambda>(key, s). (key, map (\<lambda>k. questions st ! k) (sections st ! s))) (dictionary st)"

definition md_script_to_dictionary :: "string \<Rightarrow> error + document" where
  "md_script_to_dictionary md_script =
     (case md_rows initial (str_split NEW_LINE md_script) of
        Inl e \<Rightarrow> Inl e
      | Inr st \<Rightarrow> Inr (completing_dictionary (view st)))"

section \<open>Regular expressions\<close>

text \<open>
  A compiled pattern is modelled by its matcher: given the text from some position on, the
  groups and the length of the match that starts there, if there is one. None of the patterns
  below looks behind, and none matches the empty string. \<open>re_scan\<close> is the scan of
  \<open>re.sub\<close> and \<open>re.search\<close>: leftmost match first, then on from where it ends.
\<close>

type_synonym matcher = "string \<Rightarrow> (string list \<times> nat) option"

datatype seg = Lit char | Match "string list"

function re_scan :: "matcher \<Rightarrow> string \<Rightarrow> seg list" where
  "re_scan m [] = []"
| "re_scan m (c # cs) =
     (case m (c # cs) of
        Some (gs, n) \<Rightarrow> Match gs # re_scan m (drop (n - 1) cs)
      | None \<Rightarrow> Lit c # re_scan m cs)"
  by pat_completeness auto
termination
  by (relation "measure (\<lambda>(m, s). length s)") auto

fun is_Match :: "seg \<Rightarrow> bool" where
  "is_Match (Match gs) = True"
| "is_Match (Lit c) = False"

definition re_search :: "matcher \<Rightarrow> string \<Rightarrow> bool" where
  "re_search m s = list_ex is_Match (re_scan m s)"

definition re_sub :: "matcher \<Rightarrow> (string list \<Rightarrow> string) \<Rightarrow> string \<Rightarrow> string" where
  "re_sub m repl s =
     concat (map (\<lambda>x. case x of Lit c \<Rightarrow> [c] | Match gs \<Rightarrow> repl gs) (re_scan m s))"

text \<open>The same with a replacement that can raise: the leftmost failure is the result.\<close>

fun concat_io :: "(string list \<Rightarrow> error + string) \<Rightarrow> seg list \<Rightarrow> error + string" where
  "concat_io repl [] = Inr []"
| "concat_io repl (Lit c # r) =
     (case concat_io repl r of Inl e \<Rightarrow> Inl e | Inr y \<Rightarrow> Inr (c # y))"
| "concat_io repl (Match gs # r) =
     (case repl gs of
        Inl e \<Rightarrow> Inl e
      | Inr x \<Rightarrow> (case concat_io repl r of Inl e \<Rightarrow> Inl e | Inr y \<Rightarrow> Inr (x @ y)))"

definition re_sub_io ::
  "matcher \<Rightarrow> (string list \<Rightarrow> error + string) \<Rightarrow> string \<Rightarrow> error + string" where
  "re_sub_io m repl s = concat_io repl (re_scan m s)"

text \<open>\<open>match.group(k)\<close>, for \<open>k \<ge> 1\<close>.\<close>

definition group :: "string list \<Rightarrow> nat \<Rightarrow> string" where
  "group gs k = gs ! (k - 1)"

text \<open>The greatest \<open>j < n\<close> with \<open>P j\<close>: where a greedy quantifier stops backing off.\<close>

definition last_pos :: "(nat \<Rightarrow> bool) \<Rightarrow> nat \<Rightarrow> nat option" where
  "last_pos P n = (case filter P (rev [0..<n]) of [] \<Rightarrow> None | j # _ \<Rightarrow> Some j)"

definition line_of :: "string \<Rightarrow> string" where
  "line_of s = takeWhile (\<lambda>c. c \<noteq> NEW_LINE) s"

text \<open>The pattern of three backticks, \<open>(.*)\<close>, a newline, \<open>([\s\S]+)\<close>, three backticks.\<close>

definition MULTI_LINE_CODE_PATTERN :: matcher where
  "MULTI_LINE_CODE_PATTERN s =
     (if take 3 s = ''```'' \<and> dropWhile (\<lambda>c. c \<noteq> NEW_LINE) (drop 3 s) \<noteq> [] then
        (let lang = line_of (drop 3 s);
             body = tl (dropWhile (\<lambda>c. c \<noteq> NEW_LINE) (drop 3 s))
         in case last_pos (\<lambda>j. 1 \<le> j \<and> take 3 (drop j body) = ''```'') (length body) of
              None \<Rightarrow> None
            | Some j \<Rightarrow> Some ([lang, take j body], 3 + length lang + 1 + j + 3))
      else None)"

text \<open>The pattern of a backtick, \<open>([^`]+)\<close>, a backtick.\<close>

definition SINGLE_LINE_CODE_PATTERN :: matcher where
  "SINGLE_LINE_CODE_PATTERN s =
     (if take 1 s = ''`'' then
        (let g = takeWhile (\<lambda>c. c \<noteq> CHR ''`'') (drop 1 s)
         in if g \<noteq> [] \<and> length g < length (drop 1 s) then Some ([g], length g + 2) else None)
      else None)"

text \<open>The pattern \<open>\$(.+)\$\<close>.\<close>

definition SINGLE_DOLLAR_LATEX_PATTERN :: matcher where
  "SINGLE_DOLLAR_LATEX_PATTERN s =
     (if take 1 s = ''$'' then
        (let l = line_of (drop 1 s)
         in case last_pos (\<lambda>j. 1 \<le> j \<and> l ! j = CHR ''$'') (length l) of
              None \<Rightarrow> None
            | Some j \<Rightarrow> Some ([take j l], j + 2))
      else None)"

text \<open>The pattern \<open>\$\$(.+)\$\$\<close>.\<close>

definition DOUBLE_DOLLAR_LATEX_PATTERN :: matcher where
  "DOUBLE_DOLLAR_LATEX_PATTERN s =
     (if take 2 s = ''$$'' then
        (let l = line_of (drop 2 s)
         in case last_pos (\<lambda>j. 1 \<le> j \<and> take 2 (drop j l) = ''$$'') (length l) of
              None \<Rightarrow> None
            | Some j \<Rightarrow> Some ([take j l], j + 4))
      else None)"

text \<open>
  The pattern \<open>!\[.*\]\((.+)\)\<close>: the last \<open>](\<close> of the line that still has a character and
  a closing parenthesis after it, then the last closing parenthesis of the line.
\<close>

definition IMAGE_PATTERN :: matcher where
  "IMAGE_PATTERN s =
     (if take 2 s = ''!['' then
        (let l = line_of (drop 2 s);
             close = (\<lambda>a. last_pos (\<lambda>b. a + 3 \<le> b \<and> l ! b = CHR '')'') (length l))
         in case last_pos (\<lambda>a. take 2 (drop a l) = '']('' \<and> close a \<noteq> None) (length l) of
              None \<Rightarrow> None
            | Some a \<Rightarrow>
                (let b = the (close a)
                 in Some ([take (b - (a + 2)) (drop (a + 2) l)], 2 + b + 1)))
      else None)"

section \<open>Rendering\<close>

text \<open>
  What the renderers call outside this program is a parameter: the \<open>markdown\<close> function,
  the lexer lookup and the highlighter of Pygments (the name of a known lexer stands for
  the lexer; the result is the base64 text of the image), the read of a file or URL (again
  as base64 text) and the two functions of \<open>os.path\<close>. The highlighter and the read can
  raise.
\<close>

record env =
  markdown :: "string \<Rightarrow> string"
  known_lexer :: "string \<Rightarrow> bool"
  highlight_b64 :: "string \<Rightarrow> string \<Rightarrow> error + string"
  read_b64 :: "string \<Rightarrow> error + string"
  isabs :: "string \<Rightarrow> bool"
  path_join :: "string \<Rightarrow> string \<Rightarrow> string"

definition backslash :: char where
  "backslash = CHR 0x5C"

definition wrap_cdata :: "string \<Rightarrow> string" where
  "wrap_cdata html = ''<![CDATA['' @ html @ '']]>''"

definition sanitize_entities :: "string \<Rightarrow> string" where
  "sanitize_entities text =
     (let text = replace ''&'' ''&amp;'' text;
          text = replace ''>'' ''&gt;'' text;
          text = replace ''<'' ''&lt;'' text
      in text)"

text \<open>
  The replacement is the Python literal \<open>'\\\\\('\<close>, three backslashes and a parenthesis, the
  code, and the literal \<open>'\\\\)'\<close>, two backslashes and a parenthesis.
\<close>

definition replace_latex :: "string list \<Rightarrow> string" where
  "replace_latex match =
     (let code = group match 1;
          code = replace ''('' (backslash # ''left('') code;
          code = replace '')'' (backslash # ''right)'') code
      in [backslash, backslash, backslash, CHR ''(''] @ code @ [backslash, backslash, CHR '')''])"

definition replace_single_line_code :: "string list \<Rightarrow> string" where
  "replace_single_line_code match =
     (let code = group match 1;
          code = sanitize_entities code
      in ''<code>'' @ code @ ''</code>'')"

definition img_tag :: "string \<Rightarrow> string \<Rightarrow> string" where
  \<open>img_tag extension base64_image =
     (let src_part = ''data:image/'' @ extension @ '';base64,'' @ base64_image
      in ''<img style="display:block;" src="'' @ src_part @ ''" />'')\<close>

definition convert_code_image_base64 :: "env \<Rightarrow> string \<Rightarrow> string \<Rightarrow> error + string" where
  "convert_code_image_base64 ev lexer_name code =
     (let lexer_name = (if lexer_name = [] then ''pascal'' else lexer_name);
          lexer = (if known_lexer ev lexer_name then lexer_name else ''pascal'')
      in case highlight_b64 ev lexer code of
           Inl e \<Rightarrow> Inl e
         | Inr base64_image \<Rightarrow> Inr (img_tag ''png'' base64_image))"

definition replace_multi_line_code :: "env \<Rightarrow> string list \<Rightarrow> error + string" where
  "replace_multi_line_code ev match =
     (let lexer = group match 1;
          code = group match 2;
          to_image = (0 < str_find lexer ''{img}'')
      in if to_image then
           convert_code_image_base64 ev (replace ''{img}'' [] lexer) code
         else Inr (''<pre><code>'' @ sanitize_entities code @ ''</code></pre>''))"

definition build_image_tag :: "env \<Rightarrow> string \<Rightarrow> error + string" where
  "build_image_tag ev file_name =
     (let extension = last (str_split (CHR ''.'') file_name)
      in case read_b64 ev file_name of
           Inl e \<Rightarrow> Inl e
         | Inr base64_image \<Rightarrow> Inr (img_tag extension base64_image))"

definition replace_image :: "env \<Rightarrow> string \<Rightarrow> string list \<Rightarrow> error + string" where
  "replace_image ev md_dir_path match =
     (let file_name = group match 1;
          file_name =
            (if \<not> isabs ev file_name \<and> str_find file_name ''://'' = - 1
             then path_join ev md_dir_path file_name else file_name)
      in build_image_tag ev file_name)"

definition render_answer :: "env \<Rightarrow> string \<Rightarrow> string" where
  "render_answer ev text =
     (let (text, convert_html) =
            (if re_search SINGLE_LINE_CODE_PATTERN text
             then (re_sub SINGLE_LINE_CODE_PATTERN replace_single_line_code
                     (sanitize_entities text), True)
             else (text, False));
          (text, convert_html) =
            (if re_search SINGLE_DOLLAR_LATEX_PATTERN text
             then (re_sub SINGLE_DOLLAR_LATEX_PATTERN replace_latex text, True)
             else (text, convert_html))
      in if convert_html then wrap_cdata (markdown ev text) else text)"

definition render_text :: "env \<Rightarrow> string \<Rightarrow> string \<Rightarrow> error + string" where
  "render_text ev text md_dir_path =
     (case re_sub_io MULTI_LINE_CODE_PATTERN (replace_multi_line_code ev) text of
        Inl e \<Rightarrow> Inl e
      | Inr text \<Rightarrow>
          (let text = re_sub SINGLE_LINE_CODE_PATTERN replace_single_line_code text
           in case re_sub_io IMAGE_PATTERN (replace_image ev md_dir_path) text of
                Inl e \<Rightarrow> Inl e
              | Inr text \<Rightarrow>
                  (let text = re_sub DOUBLE_DOLLAR_LATEX_PATTERN replace_latex text;
                       text = re_sub SINGLE_DOLLAR_LATEX_PATTERN replace_latex text
                   in Inr (markdown ev text))))"

section \<open>Invariants of the parser state\<close>

text \<open>The address held by \<open>current_question\<close> is an address of the store.\<close>

definition cq_valid :: "pstate \<Rightarrow> bool" where
  "cq_valid st =
     (case current_question st of Initial t \<Rightarrow> True | Ref k \<Rightarrow> k < length (questions st))"

text \<open>Every address the state holds is an address of its store.\<close>

definition wf_state :: "pstate \<Rightarrow> bool" where
  "wf_state st =
     (cq_valid st \<and> cur_section st < length (sections st) \<and>
      (\<forall>(key, s)\<in>set (dictionary st). s < length (sections st)) \<and>
      (\<forall>ks\<in>set (sections st). \<forall>k\<in>set ks. k < length (questions st)))"

text \<open>
  Every list the dictionary refers to holds only addresses from \<open>n\<close> on: questions created
  after the first \<open>n\<close>.
\<close>

definition created_from :: "nat \<Rightarrow> pstate \<Rightarrow> bool" where
  "created_from n st =
     (n \<le> length (questions st) \<and>
      (\<forall>(key, s)\<in>set (dictionary st).
         s < length (sections st) \<and> (\<forall>k\<in>set (sections st ! s). n \<le> k)))"

section \<open>The sum of the weights\<close>

text \<open>
  With \<open>n\<close> correct answers, each of the weight the completer gives them, the weights sum
  to 100 within \<open>1 / 10 ^ 6\<close>.
\<close>

definition sum_close :: "nat \<Rightarrow> bool" where
  "sum_close n =
     (\<bar>of_nat n * py_round (float_div 100 (float_of_int (int n))) 7 - 100\<bar> \<le> 1 / 10 ^ 6)"

section \<open>Example inputs\<close>

text \<open>The first scenario of the specification: one section, one question, two answers.\<close>

definition scenario1 :: string where
  "scenario1 =
     ''# Sec1'' @ [NEW_LINE] @ ''* What is 2+2?'' @ [NEW_LINE] @ ''- 3'' @ [NEW_LINE] @
     ''- !4'' @ [NEW_LINE]"

definition scenario1_question :: question where
  "scenario1_question =
     \<lparr>q_text = ''What is 2+2?'',
      answers = [\<lparr>a_text = ''3'', correct = False, weight = Some 0\<rparr>,
                 \<lparr>a_text = ''4'', correct = True, weight = Some 100\<rparr>],
      single = Some True\<rparr>"

text \<open>A header, then an answer with no question before it.\<close>

definition answer_first :: string where
  "answer_first = ''# H'' @ [NEW_LINE] @ ''- !b''"

text \<open>
  A question and its answer before the first header, then a section with one question.
  \<open>early_st0\<close> is the parser state after the two rows in front of the header,
  \<open>early_st\<close> the state at the end.
\<close>

definition early_question :: string where
  "early_question =
     ''* Q'' @ [NEW_LINE] @ ''- !a'' @ [NEW_LINE] @ ''# H'' @ [NEW_LINE] @ ''* R'' @ [NEW_LINE] @
     ''- !b''"

definition early_st0 :: pstate where
  "early_st0 =
     \<lparr>dictionary = [], sections = [[0]],
      questions =
        [\<lparr>q_text = ''Q'', answers = [\<lparr>a_text = ''a'', correct = True, weight = None\<rparr>],
          single = None\<rparr>],
      cur_section = 0, current_question = Ref 0,
      current_answer = Some \<lparr>a_text = ''a'', correct = True, weight = None\<rparr>\<rparr>"

definition early_st :: pstate where
  "early_st =
     \<lparr>dictionary = [(''H'', 1)], sections = [[0], [1]],
      questions =
        [\<lparr>q_text = ''Q'', answers = [\<lparr>a_text = ''a'', correct = True, weight = None\<rparr>],
          single = None\<rparr>,
         \<lparr>q_text = ''R'', answers = [\<lparr>a_text = ''b'', correct = True, weight = None\<rparr>],
          single = None\<rparr>],
      cur_section = 1, current_question = Ref 1,
      current_answer = Some \<lparr>a_text = ''b'', correct = True, weight = None\<rparr>\<rparr>"

text \<open>Rows that open a fenced block inside a question, and a row of two spaces.\<close>

definition fence_rows :: "string list" where
  "fence_rows = [''# H'', ''* Q'', ''```py'']"

definition two_spaces :: string where
  "two_spaces = ''  ''"


text \<open>A fenced block whose language tag is the token \<open>{img}\<close> alone.\<close>

definition img_block :: string where
  "img_block = ''```{img}'' @ [NEW_LINE] @ ''x = 1'' @ [NEW_LINE] @ ''```''"

text \<open>
  A section with one question and \<open>n\<close> answers, all marked correct, and the question the
  parser returns for it.
\<close>

definition many_correct :: "nat \<Rightarrow> string" where
  "many_correct n =
     ''# S'' @ [NEW_LINE] @ ''* Q'' @ [NEW_LINE] @ concat (replicate n (''- !a'' @ [NEW_LINE]))"

definition all_correct :: "nat \<Rightarrow> question" where
  "all_correct n =
     complete_question
       \<lparr>q_text = ''Q'', answers = replicate n \<lparr>a_text = ''a'', correct = True, weight = None\<rparr>,
        single = None\<rparr>"

section \<open>The scoring completer\<close>

lemma filter_correct_set_weight:
  "filter correct (map (\<lambda>a. a\<lparr>weight := f a\<rparr>) xs) =
   map (\<lambda>a. a\<lparr>weight := f a\<rparr>) (filter correct xs)"
  by (induction xs) auto

lemma complete_question_idem: "complete_question (complete_question q) = complete_question q"
  by (simp add: complete_question_def Let_def filter_correct_set_weight)

lemma complete_question_single:
  "single (complete_question q) =
     Some (length (filter correct (answers (complete_question q))) = 1 \<or>
           length (filter correct (answers (complete_question q))) = 0)"
  by (auto simp: complete_question_def Let_def filter_correct_set_weight)

lemma completing_dictionary_mem:
  "(key, sec) \<in> set (completing_dictionary d) \<Longrightarrow> q \<in> set sec \<Longrightarrow>
   \<exists>q0. q = complete_question q0"
  by (auto simp: completing_dictionary_def)

lemma md_script_to_dictionary_completed:
  "md_script_to_dictionary md_script = Inr d \<Longrightarrow> \<exists>d0. d = completing_dictionary d0"
  by (auto simp: md_script_to_dictionary_def split: sum.splits)

lemma parsed_question_completed:
  assumes "md_script_to_dictionary md_script = Inr d" and "(key, sec) \<in> set d" and "q \<in> set sec"
  shows "\<exists>q0. q = complete_question q0"
  using assms md_script_to_dictionary_completed completing_dictionary_mem by blast

lemma scenario1_parse:
  "md_script_to_dictionary scenario1 = Inr [(''Sec1'', [scenario1_question])]"
  by code_simp

text \<open>
  C1. In every document the parser returns, which has been through the scoring completer,
  the flag \<open>single\<close> of a question is set, and it is true exactly when the number of its
  answers marked correct is one or zero.
\<close>

theorem single_iff_at_most_one_correct:
  assumes "md_script_to_dictionary md_script = Inr d" and "(key, sec) \<in> set d" and "q \<in> set sec"
  shows "single q = Some (length (filter correct (answers q)) = 1 \<or>
                          length (filter correct (answers q)) = 0)"
proof -
  from assms obtain q0 where "q = complete_question q0"
    using parsed_question_completed by blast
  then show ?thesis
    by (simp only: complete_question_single)
qed

theorem single_iff_at_most_one_correct_witness:
  "md_script_to_dictionary scenario1 = Inr [(''Sec1'', [scenario1_question])] \<and>
   single scenario1_question =
     Some (length (filter correct (answers scenario1_question)) = 1 \<or>
           length (filter correct (answers scenario1_question)) = 0)"
  using single_iff_at_most_one_correct [OF scenario1_parse, of "''Sec1''" "[scenario1_question]" scenario1_question]
    scenario1_parse
  by simp

text \<open>
  C9. The scoring completer is idempotent: a second pass over a document leaves every
  \<open>single\<close> flag and every weight as the first pass set them.
\<close>

theorem completing_dictionary_idempotent:
  "completing_dictionary (completing_dictionary d) = completing_dictionary d"
  by (induction d) (auto simp: completing_dictionary_def complete_question_idem)

subsection \<open>Weights\<close>

text \<open>Three values as CPython computes them: \<open>0.1\<close>, \<open>round(100.0 / 3, 7)\<close> and a tie.\<close>

lemma fl_tenth: "fl (1 / 10) = 3602879701896397 / 36028797018963968"
  by code_simp

lemma weight_of_three:
  "py_round (float_div 100 (float_of_int 3)) 7 = 4691249607153017 / 140737488355328"
  by code_simp

lemma weight_of_1024:
  "py_round (float_div 100 (float_of_int 1024)) 7 = fl (976562 / 10 ^ 7)"
  by code_simp

lemma sum_list_const:
  "\<forall>a\<in>set xs. f a = (w::rat) \<Longrightarrow> sum_list (map f xs) = of_nat (length xs) * w"
  by (induction xs) (auto simp: algebra_simps)

lemma sums_close_up_to_21: "list_all sum_close [1..<22]"
  by code_simp

lemma weights_up_to_21:
  assumes "1 \<le> n" and "n \<le> 21"
  shows "\<bar>of_nat n * py_round (float_div 100 (float_of_int (int n))) 7 - 100\<bar> \<le> 1 / 10 ^ 6"
proof -
  from assms have "n \<in> set [1..<22]" by simp
  with sums_close_up_to_21 have "sum_close n"
    by (simp only: list_all_iff)
  then show ?thesis
    by (simp only: sum_close_def)
qed

lemma complete_question_weight:
  assumes "a \<in> set (answers (complete_question q))"
  shows "weight a =
     Some (if correct a
           then py_round (float_div 100 (float_of_int
                  (int (length (filter correct (answers (complete_question q))))))) 7
           else 0)"
proof -
  let ?n = "int (length (filter correct (answers q)))"
  let ?w = "py_round (float_div 100 (float_of_int (if ?n < 1 then 1 else ?n))) 7"
  have ans: "answers (complete_question q) =
      map (\<lambda>a. a\<lparr>weight := Some (if correct a then ?w else 0)\<rparr>) (answers q)"
    by (simp add: complete_question_def Let_def)
  have len: "length (filter correct (answers (complete_question q))) =
      length (filter correct (answers q))"
    by (simp add: ans filter_correct_set_weight)
  from assms obtain a0 where a0: "a0 \<in> set (answers q)"
    and a: "a = a0\<lparr>weight := Some (if correct a0 then ?w else 0)\<rparr>"
    by (auto simp: ans)
  show ?thesis
  proof (cases "correct a0")
    case True
    with a0 have "filter correct (answers q) \<noteq> []"
      by (auto simp: filter_empty_conv)
    then have "\<not> ?n < 1"
      by (cases "filter correct (answers q)") auto
    with True a len show ?thesis by simp
  next
    case False
    with a show ?thesis by simp
  qed
qed

lemma complete_question_sum:
  "sum_list (map (the \<circ> weight) (filter correct (answers (complete_question q)))) =
   of_nat (length (filter correct (answers (complete_question q)))) *
   py_round (float_div 100 (float_of_int
     (int (length (filter correct (answers (complete_question q))))))) 7"
  by (rule sum_list_const) (auto simp: complete_question_weight)

text \<open>
  C2 (amended). In every document the parser returns, an answer marked correct has the
  weight \<open>round(100.0 / n, 7)\<close>, where \<open>n\<close> is the number of answers of its question that
  are marked correct, and any other answer has the weight 0. When a question has between
  1 and 21 correct answers, the sum of their weights differs from 100 by at most
  \<open>1 / 10 ^ 6\<close>. The sum is the exact sum of the values of the doubles.
\<close>

theorem weights_after_completing:
  assumes "md_script_to_dictionary md_script = Inr d" and "(key, sec) \<in> set d" and "q \<in> set sec"
  shows "(\<forall>a\<in>set (answers q).
            weight a =
              Some (if correct a
                    then py_round (float_div 100 (float_of_int
                           (int (length (filter correct (answers q)))))) 7
                    else 0)) \<and>
         (1 \<le> length (filter correct (answers q)) \<and> length (filter correct (answers q)) \<le> 21 \<longrightarrow>
            \<bar>sum_list (map (the \<circ> weight) (filter correct (answers q))) - 100\<bar> \<le> 1 / 10 ^ 6)"
proof -
  from assms obtain q0 where q: "q = complete_question q0"
    using parsed_question_completed by blast
  have "\<bar>sum_list (map (the \<circ> weight) (filter correct (answers q))) - 100\<bar> \<le> 1 / 10 ^ 6"
    if "1 \<le> length (filter correct (answers q))" "length (filter correct (answers q)) \<le> 21"
    using weights_up_to_21 [OF that] unfolding q complete_question_sum .
  then show ?thesis
    by (auto simp: q complete_question_weight)
qed

lemma weight_one: "py_round (float_div 100 (float_of_int 1)) 7 = 100"
  by code_simp

theorem weights_after_completing_witness:
  "md_script_to_dictionary scenario1 = Inr [(''Sec1'', [scenario1_question])] \<and>
   map weight (answers scenario1_question) =
     [Some 0, Some (py_round (float_div 100 (float_of_int 1)) 7)] \<and>
   length (filter correct (answers scenario1_question)) = 1 \<and>
   \<bar>sum_list (map (the \<circ> weight) (filter correct (answers scenario1_question))) - 100\<bar>
     \<le> 1 / 10 ^ 6"
  using weights_after_completing
    [OF scenario1_parse, of "''Sec1''" "[scenario1_question]" scenario1_question]
    scenario1_parse
  by (simp add: scenario1_question_def weight_one)

text \<open>
  C2 as stated fails for a question with many correct answers: each weight is off by up
  to \<open>5 / 10 ^ 8\<close>, and with 26 correct answers, each of weight 3.8461538, the sum is
  99.9999988: more than \<open>1 / 10 ^ 6\<close> below 100.
\<close>

lemma many_correct_26_parse:
  "md_script_to_dictionary (many_correct 26) = Inr [(''S'', [all_correct 26])]"
  by code_simp

lemma all_correct_26_count: "length (filter correct (answers (all_correct 26))) = 26"
  by code_simp

lemma all_correct_26_sum:
  "\<not> \<bar>sum_list (map (the \<circ> weight) (filter correct (answers (all_correct 26)))) - 100\<bar>
       \<le> 1 / 10 ^ 6"
  by code_simp

theorem weights_sum_counterexample:
  "md_script_to_dictionary (many_correct 26) = Inr [(''S'', [all_correct 26])] \<and>
   length (filter correct (answers (all_correct 26))) = 26 \<and>
   \<not> \<bar>sum_list (map (the \<circ> weight) (filter correct (answers (all_correct 26)))) - 100\<bar>
       \<le> 1 / 10 ^ 6"
  using many_correct_26_parse all_correct_26_count all_correct_26_sum by blast


section \<open>The document builder\<close>

subsection \<open>Rows\<close>

lemma str_split_not_Nil: "str_split sep s \<noteq> []"
  by (induction s) (auto split: list.splits)

subsection \<open>Rows of different kinds\<close>


lemma empty_line_dropWhile: "is_empty_line s \<Longrightarrow> dropWhile isspace s = []"
  by (simp add: is_empty_line_def)

lemma empty_line_not_header: "is_empty_line s \<Longrightarrow> \<not> is_header s"
  by (simp add: is_header_def get_header_def empty_line_dropWhile)

lemma empty_line_after_marker: "is_empty_line s \<Longrightarrow> after_marker m s = None"
  by (simp add: after_marker_def empty_line_dropWhile)

lemma empty_line_not_question: "is_empty_line s \<Longrightarrow> \<not> is_question s"
  by (simp add: is_question_def get_question_def empty_line_after_marker)

lemma empty_line_not_correct_answer: "is_empty_line s \<Longrightarrow> \<not> is_correct_answer s"
  by (simp add: is_correct_answer_def get_correct_answer_def empty_line_after_marker)

lemma empty_line_not_wrong_answer: "is_empty_line s \<Longrightarrow> \<not> is_wrong_answer s"
  by (simp add: is_wrong_answer_def get_wrong_answer_def empty_line_after_marker)

lemma after_marker_SomeD:
  "after_marker m s = Some r \<Longrightarrow> \<exists>w. dropWhile isspace s = m # w # r \<and> isspace w"
  by (auto simp: after_marker_def split: list.splits if_splits)

lemma answer_marker_not_header: "after_marker (CHR ''-'') s = Some r \<Longrightarrow> \<not> is_header s"
  by (auto simp: is_header_def get_header_def dest!: after_marker_SomeD)

lemma answer_marker_not_question: "after_marker (CHR ''-'') s = Some r \<Longrightarrow> \<not> is_question s"
  by (auto simp: is_question_def get_question_def after_marker_def split: list.splits)

lemma is_answer_marker:
  "is_correct_answer s \<or> is_wrong_answer s \<Longrightarrow> \<exists>r. after_marker (CHR ''-'') s = Some r"
  by (auto simp: is_correct_answer_def get_correct_answer_def is_wrong_answer_def
      get_wrong_answer_def split: option.splits)

lemma answer_not_header: "is_correct_answer s \<or> is_wrong_answer s \<Longrightarrow> \<not> is_header s"
  using is_answer_marker answer_marker_not_header by blast

lemma answer_not_question: "is_correct_answer s \<or> is_wrong_answer s \<Longrightarrow> \<not> is_question s"
  using is_answer_marker answer_marker_not_question by blast

subsection \<open>The loop over the rows\<close>

lemma md_rows_append:
  "md_rows st (xs @ ys) =
     (case md_rows st xs of Inl e \<Rightarrow> Inl e | Inr st' \<Rightarrow> md_rows st' ys)"
  by (induction xs arbitrary: st) (auto split: sum.splits)

lemma append_answer_Initial:
  "current_question st = Initial t \<Longrightarrow> append_answer st a = Inl (KeyError ''answers'')"
  by (simp add: append_answer_def)

lemma step_answer_Initial:
  assumes "current_question st = Initial t"
    and "is_correct_answer (strip_eol row) \<or> is_wrong_answer (strip_eol row)"
  shows "md_row_step st row = Inl (KeyError ''answers'')"
  using assms answer_not_header [OF assms(2)] answer_not_question [OF assms(2)]
  by (auto simp: md_row_step_def Let_def append_answer_Initial)

lemma append_answer_error: "append_answer st a = Inl e \<Longrightarrow> e = KeyError ''answers''"
  by (auto simp: append_answer_def split: qref.splits)

lemma step_error: "md_row_step st row = Inl e \<Longrightarrow> e = KeyError ''answers''"
  by (auto simp: md_row_step_def Let_def split: if_splits dest: append_answer_error)

lemma step_keeps_Initial:
  assumes "current_question st = Initial t" and "\<not> is_question (strip_eol row)"
    and "md_row_step st row = Inr st'"
  shows "\<exists>t'. current_question st' = Initial t'"
  using assms
  by (auto simp: md_row_step_def Let_def append_answer_def set_cq_text_def split: if_splits)

lemma rows_keep_Initial:
  assumes "\<forall>r\<in>set rows. \<not> is_question (strip_eol r)" and "current_question st = Initial t"
  shows "md_rows st rows = Inl (KeyError ''answers'') \<or>
         (\<exists>st' t'. md_rows st rows = Inr st' \<and> current_question st' = Initial t')"
  using assms
proof (induction rows arbitrary: st t)
  case Nil
  then show ?case by simp
next
  case (Cons r rows)
  show ?case
  proof (cases "md_row_step st r")
    case (Inl e)
    then show ?thesis using step_error [OF Inl] by simp
  next
    case (Inr st1)
    with Cons.prems obtain t1 where "current_question st1 = Initial t1"
      using step_keeps_Initial [of st t r st1] by auto
    with Cons.IH [of st1 t1] Cons.prems(1) Inr show ?thesis by simp
  qed
qed

text \<open>
  C10. When the first answer row of a text (a row that matches the correct-answer or the
  wrong-answer pattern) comes before any question row, the parser returns no document: the
  append to the answers of the current question fails with a \<open>KeyError\<close>, since the
  dictionary the parser starts with has no such key.
\<close>

theorem answer_before_question_raises:
  assumes "str_split NEW_LINE md_script = pre @ row # post"
    and "\<forall>r\<in>set pre. \<not> is_question (strip_eol r)"
    and "is_correct_answer (strip_eol row) \<or> is_wrong_answer (strip_eol row)"
  shows "md_script_to_dictionary md_script = Inl (KeyError ''answers'')"
proof -
  have init: "current_question initial = Initial None"
    by (simp add: initial_def)
  from rows_keep_Initial [OF assms(2) init]
  have "md_rows initial (pre @ row # post) = Inl (KeyError ''answers'')"
  proof
    assume "md_rows initial pre = Inl (KeyError ''answers'')"
    then show ?thesis by (simp add: md_rows_append)
  next
    assume "\<exists>st' t'. md_rows initial pre = Inr st' \<and> current_question st' = Initial t'"
    then obtain st' t' where "md_rows initial pre = Inr st'" "current_question st' = Initial t'"
      by blast
    then show ?thesis
      using step_answer_Initial [OF _ assms(3), of st' t'] by (simp add: md_rows_append)
  qed
  then show ?thesis
    by (simp add: md_script_to_dictionary_def assms(1))
qed

theorem answer_before_question_raises_witness:
  "str_split NEW_LINE answer_first = [''# H''] @ ''- !b'' # [] \<and>
   md_script_to_dictionary answer_first = Inl (KeyError ''answers'')"
proof -
  have rows: "str_split NEW_LINE answer_first = [''# H''] @ ''- !b'' # []"
    by code_simp
  have pre: "\<forall>r\<in>set [''# H'']. \<not> is_question (strip_eol r)"
    by code_simp
  have row: "is_correct_answer (strip_eol ''- !b'') \<or> is_wrong_answer (strip_eol ''- !b'')"
    by code_simp
  show ?thesis
    using answer_before_question_raises [OF rows pre row] rows by simp
qed

subsection \<open>Substrings\<close>

lemma take_eq_iff_prefix: "take (length sub) s = sub \<longleftrightarrow> (\<exists>v. s = sub @ v)"
  by (metis append_eq_conv_conj append_take_drop_id)

lemma find_from_range: "find_from i sub s = - 1 \<or> int i \<le> find_from i sub s"
  by (induction s arbitrary: i) (auto, force)

lemma find_from_iff: "find_from i sub s \<noteq> - 1 \<longleftrightarrow> (\<exists>u v. s = u @ sub @ v)"
proof (induction s arbitrary: i)
  case Nil
  then show ?case by auto
next
  case (Cons c cs)
  have split: "(\<exists>u v. c # cs = u @ sub @ v) \<longleftrightarrow>
      (\<exists>v. c # cs = sub @ v) \<or> (\<exists>u v. cs = u @ sub @ v)"
  proof
    assume "\<exists>u v. c # cs = u @ sub @ v"
    then obtain u v where uv: "c # cs = u @ sub @ v" by blast
    show "(\<exists>v. c # cs = sub @ v) \<or> (\<exists>u v. cs = u @ sub @ v)"
    proof (cases u)
      case Nil
      with uv show ?thesis by auto
    next
      case (Cons a u')
      with uv have "cs = u' @ sub @ v" by simp
      then show ?thesis by blast
    qed
  next
    assume "(\<exists>v. c # cs = sub @ v) \<or> (\<exists>u v. cs = u @ sub @ v)"
    then show "\<exists>u v. c # cs = u @ sub @ v"
    proof
      assume "\<exists>v. c # cs = sub @ v"
      then obtain v where "c # cs = [] @ sub @ v" by auto
      then show ?thesis by blast
    next
      assume "\<exists>u v. cs = u @ sub @ v"
      then obtain u v where "c # cs = (c # u) @ sub @ v" by auto
      then show ?thesis by blast
    qed
  qed
  show ?case
  proof (cases "take (length sub) (c # cs) = sub")
    case True
    then have "\<exists>v. c # cs = sub @ v"
      using take_eq_iff_prefix [of sub "c # cs"] by blast
    with True split show ?thesis by simp
  next
    case False
    then have "\<not> (\<exists>v. c # cs = sub @ v)"
      using take_eq_iff_prefix [of sub "c # cs"] by blast
    with False split Cons.IH [of "Suc i"] show ?thesis by simp
  qed
qed

lemma str_find_iff: "- 1 < str_find s sub \<longleftrightarrow> (\<exists>u v. s = u @ sub @ v)"
proof -
  have "- 1 < find_from 0 sub s \<longleftrightarrow> find_from 0 sub s \<noteq> - 1"
    using find_from_range [of 0 sub s] by auto
  then show ?thesis
    by (simp add: str_find_def find_from_iff)
qed

subsection \<open>Blank rows\<close>

lemma cq_valid_initial: "cq_valid initial"
  by (simp add: cq_valid_def initial_def)

lemma step_cq_valid: "cq_valid st \<Longrightarrow> md_row_step st row = Inr st' \<Longrightarrow> cq_valid st'"
  by (auto simp: md_row_step_def Let_def cq_valid_def append_answer_def set_cq_text_def
      split: if_splits qref.splits)

lemma rows_cq_valid: "cq_valid st \<Longrightarrow> md_rows st rows = Inr st' \<Longrightarrow> cq_valid st'"
proof (induction rows arbitrary: st)
  case Nil
  then show ?case by simp
next
  case (Cons r rows)
  then show ?case
    by (cases "md_row_step st r") (auto dest: step_cq_valid)
qed

lemma cq_text_set_cq_text: "cq_valid st \<Longrightarrow> cq_text (set_cq_text st t) = Some t"
  by (auto simp: cq_valid_def cq_text_def set_cq_text_def split: qref.splits)

lemma step_blank:
  assumes "is_empty_line (strip_eol row)"
  shows "md_row_step st row =
     Inr (if \<exists>u v. cq_text st = Some (u @ ''```'' @ v)
          then set_cq_text st (the (cq_text st) @ strip_eol row @ [NEW_LINE]) else st)"
proof -
  have "(cq_text st \<noteq> None \<and> - 1 < str_find (the (cq_text st)) ''```'') \<longleftrightarrow>
        (\<exists>u v. cq_text st = Some (u @ ''```'' @ v))"
    by (cases "cq_text st") (simp_all only: str_find_iff option.sel, simp_all)
  then show ?thesis
    using assms empty_line_not_header [OF assms] empty_line_not_question [OF assms]
      empty_line_not_correct_answer [OF assms] empty_line_not_wrong_answer [OF assms]
    by (auto simp: md_row_step_def Let_def)
qed

text \<open>
  C6 (amended). For a row of white space only, read in any state the parser reaches: when
  the text of the current question contains three backticks in a row, the row itself (what
  is left of it once the trailing carriage returns are stripped) and a newline are appended
  to that text, and nothing else changes; otherwise the state stays as it is. For an empty
  row the text grows by exactly a newline.
\<close>

theorem blank_line_kept_inside_fence:
  assumes "md_rows initial rows = Inr st" and "is_empty_line (strip_eol row)"
  shows "\<exists>st'. md_rows initial (rows @ [row]) = Inr st' \<and>
     (if \<exists>u v. cq_text st = Some (u @ ''```'' @ v)
      then st' = set_cq_text st (the (cq_text st) @ strip_eol row @ [NEW_LINE]) \<and>
           cq_text st' = Some (the (cq_text st) @ strip_eol row @ [NEW_LINE])
      else st' = st)"
proof -
  have valid: "cq_valid st"
    using rows_cq_valid [OF cq_valid_initial assms(1)] .
  show ?thesis
    using assms(1) step_blank [OF assms(2), of st] valid
    by (auto simp: md_rows_append cq_text_set_cq_text)
qed

lemma fence_rows_state:
  "md_rows initial fence_rows =
     Inr \<lparr>dictionary = [(''H'', 1)], sections = [[], [0]],
          questions = [\<lparr>q_text = ''Q```py'' @ [NEW_LINE], answers = [], single = None\<rparr>],
          cur_section = 1, current_question = Ref 0, current_answer = None\<rparr>"
  by code_simp

theorem blank_line_kept_inside_fence_witness:
  "is_empty_line (strip_eol two_spaces) \<and>
   map_sum id cq_text (md_rows initial fence_rows) = Inr (Some (''Q```py'' @ [NEW_LINE])) \<and>
   map_sum id cq_text (md_rows initial (fence_rows @ [two_spaces])) =
     Inr (Some (''Q```py'' @ [NEW_LINE] @ ''  '' @ [NEW_LINE]))"
proof -
  have blank: "is_empty_line (strip_eol two_spaces)"
    by code_simp
  have fence: "\<exists>u v. Some (''Q```py'' @ [NEW_LINE]) = Some (u @ ''```'' @ v)"
  proof -
    have "Some (''Q```py'' @ [NEW_LINE]) = Some (''Q'' @ ''```'' @ (''py'' @ [NEW_LINE]))"
      by simp
    then show ?thesis by blast
  qed
  have strip: "strip_eol two_spaces = ''  ''"
    by code_simp
  show ?thesis
    using blank_line_kept_inside_fence [OF fence_rows_state blank] blank fence
    by (auto simp: cq_text_def fence_rows_state strip)
qed

text \<open>
  C6 as stated fails where the blank row is not empty: after the rows that open a fenced
  block, a row of two spaces adds the two spaces and a newline to the text, not a newline
  alone.
\<close>

theorem blank_line_counterexample:
  "is_empty_line (strip_eol two_spaces) \<and>
   map_sum id cq_text (md_rows initial fence_rows) = Inr (Some (''Q```py'' @ [NEW_LINE])) \<and>
   map_sum id cq_text (md_rows initial (fence_rows @ [two_spaces])) \<noteq>
     Inr (Some ((''Q```py'' @ [NEW_LINE]) @ [NEW_LINE]))"
  by code_simp

subsection \<open>Rows in front of the first header\<close>

lemma set_update_cases:
  "(a, b) \<in> set (AList.update k v al) \<Longrightarrow> (a, b) = (k, v) \<or> (a, b) \<in> set al"
  by (induction al) (auto split: if_splits)

lemma length_questions_set_cq_text: "length (questions (set_cq_text st t)) = length (questions st)"
  by (simp add: set_cq_text_def split: qref.splits)

lemma frame_set_cq_text:
  "dictionary (set_cq_text st t) = dictionary st"
  "sections (set_cq_text st t) = sections st"
  by (simp_all add: set_cq_text_def split: qref.splits)

lemma append_answer_frame:
  assumes "append_answer st a = Inr st'"
  shows "dictionary st' = dictionary st" and "sections st' = sections st"
    and "length (questions st') = length (questions st)"
  using assms by (auto simp: append_answer_def split: qref.splits)

lemma step_no_header_dictionary:
  assumes "\<not> is_header (strip_eol row)" and "md_row_step st row = Inr st'"
  shows "dictionary st' = dictionary st"
  using assms
  by (auto simp: md_row_step_def Let_def frame_set_cq_text split: if_splits
      dest: append_answer_frame(1))

lemma step_length_questions:
  assumes "\<not> is_header (strip_eol row)" and "md_row_step st row = Inr st'"
  shows "length (questions st') =
         length (questions st) + (if is_question (strip_eol row) then 1 else 0)"
  using assms
  by (auto simp: md_row_step_def Let_def length_questions_set_cq_text split: if_splits
      dest: append_answer_frame(3))

lemma rows_no_header:
  assumes "\<forall>r\<in>set rows. \<not> is_header (strip_eol r)" and "md_rows st rows = Inr st'"
  shows "dictionary st' = dictionary st \<and>
         length (questions st') =
         length (questions st) + length (filter (\<lambda>r. is_question (strip_eol r)) rows)"
  using assms
proof (induction rows arbitrary: st)
  case Nil
  then show ?case by simp
next
  case (Cons r rows)
  from Cons.prems(2) obtain st1 where
    st1: "md_row_step st r = Inr st1" and rest: "md_rows st1 rows = Inr st'"
    by (cases "md_row_step st r") auto
  from Cons.prems(1) have r: "\<not> is_header (strip_eol r)" by simp
  from Cons.IH [OF _ rest] Cons.prems(1)
  have "dictionary st' = dictionary st1 \<and>
        length (questions st') =
        length (questions st1) + length (filter (\<lambda>r. is_question (strip_eol r)) rows)"
    by simp
  with step_no_header_dictionary [OF r st1] step_length_questions [OF r st1]
  show ?case by simp
qed

lemma nth_sections_update:
  "s < length xs \<Longrightarrow> set ((xs[i := xs ! i @ [k]]) ! s) \<subseteq> insert k (set (xs ! s))"
  by (cases "i = s") auto

lemma created_from_sections_update:
  assumes "created_from n st" and "n \<le> k"
  shows "created_from n
     (st\<lparr>questions := questions st @ [q], current_question := c,
          sections := (sections st)[i := sections st ! i @ [k]]\<rparr>)"
  unfolding created_from_def
proof (intro conjI ballI)
  show "n \<le> length (questions (st\<lparr>questions := questions st @ [q], current_question := c,
          sections := (sections st)[i := sections st ! i @ [k]]\<rparr>))"
    using assms(1) by (simp add: created_from_def)
next
  fix x
  assume "x \<in> set (dictionary (st\<lparr>questions := questions st @ [q], current_question := c,
          sections := (sections st)[i := sections st ! i @ [k]]\<rparr>))"
  then have x: "x \<in> set (dictionary st)" by simp
  obtain key s where ks: "x = (key, s)" by (cases x)
  from assms(1) x ks have s: "s < length (sections st)"
    and old: "\<forall>j\<in>set (sections st ! s). n \<le> j"
    by (auto simp: created_from_def)
  from nth_sections_update [OF s] old assms(2)
  have "\<forall>j\<in>set ((sections st)[i := sections st ! i @ [k]] ! s). n \<le> j"
    by auto
  with s ks
  show "case x of (key, s) \<Rightarrow>
          s < length (sections (st\<lparr>questions := questions st @ [q], current_question := c,
            sections := (sections st)[i := sections st ! i @ [k]]\<rparr>)) \<and>
          (\<forall>k\<in>set (sections (st\<lparr>questions := questions st @ [q], current_question := c,
            sections := (sections st)[i := sections st ! i @ [k]]\<rparr>) ! s). n \<le> k)"
    by simp
qed

lemma created_from_header:
  assumes "created_from n st"
  shows "created_from n
     (st\<lparr>sections := sections st @ [[]], cur_section := length (sections st),
          dictionary := AList.update key (length (sections st)) (dictionary st)\<rparr>)"
  using assms
  by (auto simp: created_from_def nth_append dest!: set_update_cases)

lemma created_from_frame:
  assumes "created_from n st" and "dictionary st' = dictionary st"
    and "sections st' = sections st" and "length (questions st') = length (questions st)"
  shows "created_from n st'"
  using assms by (simp add: created_from_def)

lemma append_answer_created_from:
  assumes "created_from n st" and "append_answer (st\<lparr>current_answer := c\<rparr>) a = Inr st'"
  shows "created_from n st'"
proof -
  have "created_from n (st\<lparr>current_answer := c\<rparr>)"
    using assms(1) by (simp add: created_from_def)
  from created_from_frame [OF this] append_answer_frame [OF assms(2)]
  show ?thesis by blast
qed

lemma set_cq_text_created_from: "created_from n st \<Longrightarrow> created_from n (set_cq_text st t)"
  by (simp add: created_from_def frame_set_cq_text length_questions_set_cq_text)

lemma step_created_from:
  assumes "created_from n st" and "md_row_step st row = Inr st'"
  shows "created_from n st'"
proof -
  have n: "n \<le> length (questions st)"
    using assms(1) by (simp add: created_from_def)
  consider (header) "is_header (strip_eol row)"
    | (question) "\<not> is_header (strip_eol row)" "is_question (strip_eol row)"
    | (answer) "\<not> is_header (strip_eol row)" "\<not> is_question (strip_eol row)"
        "is_correct_answer (strip_eol row) \<or> is_wrong_answer (strip_eol row)"
    | (other) "\<not> is_header (strip_eol row)" "\<not> is_question (strip_eol row)"
        "\<not> is_correct_answer (strip_eol row)" "\<not> is_wrong_answer (strip_eol row)"
    by blast
  then show ?thesis
  proof cases
    case header
    with assms(2) created_from_header [OF assms(1)] show ?thesis
      by (auto simp: md_row_step_def Let_def)
  next
    case question
    with assms(2) created_from_sections_update [OF assms(1) n] show ?thesis
      by (auto simp: md_row_step_def Let_def)
  next
    case answer
    with assms(2) show ?thesis
      by (auto simp: md_row_step_def Let_def split: if_splits
          intro: append_answer_created_from [OF assms(1)])
  next
    case other
    with assms show ?thesis
      by (auto simp: md_row_step_def Let_def split: if_splits
          intro: set_cq_text_created_from)
  qed
qed

lemma rows_created_from:
  "created_from n st \<Longrightarrow> md_rows st rows = Inr st' \<Longrightarrow> created_from n st'"
proof (induction rows arbitrary: st)
  case Nil
  then show ?case by simp
next
  case (Cons r rows)
  then show ?case
    by (cases "md_row_step st r") (auto dest: step_created_from)
qed

subsection \<open>Addresses stay in the store\<close>

lemma wf_initial: "wf_state initial"
  by (simp add: wf_state_def cq_valid_def initial_def)

lemma wf_header:
  assumes "wf_state st"
  shows "wf_state
     (st\<lparr>sections := sections st @ [[]], cur_section := length (sections st),
          dictionary := AList.update key (length (sections st)) (dictionary st)\<rparr>)"
  using assms
  by (auto simp: wf_state_def cq_valid_def dest!: set_update_cases split: qref.splits)

lemma wf_question:
  assumes "wf_state st"
  shows "wf_state
     (st\<lparr>questions := questions st @ [q], current_question := Ref (length (questions st)),
          sections := (sections st)
            [cur_section st := sections st ! cur_section st @ [length (questions st)]]\<rparr>)"
proof -
  have "k < Suc (length (questions st))"
    if "ks \<in> set ((sections st)
          [cur_section st := sections st ! cur_section st @ [length (questions st)]])"
      and "k \<in> set ks" for ks k
  proof -
    from that(1) have "ks = sections st ! cur_section st @ [length (questions st)] \<or>
        ks \<in> set (sections st)"
      using set_update_subset_insert by fastforce
    moreover have "sections st ! cur_section st \<in> set (sections st)"
      using assms by (simp add: wf_state_def)
    moreover have "\<forall>ks\<in>set (sections st). \<forall>k\<in>set ks. k < length (questions st)"
      using assms by (simp add: wf_state_def)
    ultimately show ?thesis
      using that(2) by (fastforce simp: less_Suc_eq)
  qed
  with assms show ?thesis
    by (auto simp: wf_state_def cq_valid_def)
qed

lemma wf_frame:
  assumes "wf_state st" and "cq_valid st'" and "dictionary st' = dictionary st"
    and "sections st' = sections st" and "cur_section st' = cur_section st"
    and "length (questions st') = length (questions st)"
  shows "wf_state st'"
  using assms by (simp add: wf_state_def)

lemma step_cur_section:
  assumes "\<not> is_header (strip_eol row)" and "\<not> is_question (strip_eol row)"
    and "md_row_step st row = Inr st'"
  shows "cur_section st' = cur_section st \<and> sections st' = sections st \<and>
         dictionary st' = dictionary st \<and> length (questions st') = length (questions st)"
  using assms
  by (auto simp: md_row_step_def Let_def set_cq_text_def append_answer_def
      split: if_splits qref.splits)

lemma step_wf:
  assumes "wf_state st" and "md_row_step st row = Inr st'"
  shows "wf_state st'"
proof -
  have valid: "cq_valid st'"
    using assms by (auto simp: wf_state_def dest: step_cq_valid)
  consider (header) "is_header (strip_eol row)"
    | (question) "\<not> is_header (strip_eol row)" "is_question (strip_eol row)"
    | (other) "\<not> is_header (strip_eol row)" "\<not> is_question (strip_eol row)"
    by blast
  then show ?thesis
  proof cases
    case header
    with assms(2) wf_header [OF assms(1)] show ?thesis
      by (auto simp: md_row_step_def Let_def)
  next
    case question
    with assms(2) wf_question [OF assms(1)] show ?thesis
      by (auto simp: md_row_step_def Let_def)
  next
    case other
    from step_cur_section [OF other assms(2)] wf_frame [OF assms(1) valid]
    show ?thesis by blast
  qed
qed

lemma rows_wf: "wf_state st \<Longrightarrow> md_rows st rows = Inr st' \<Longrightarrow> wf_state st'"
proof (induction rows arbitrary: st)
  case Nil
  then show ?case by simp
next
  case (Cons r rows)
  then show ?case
    by (cases "md_row_step st r") (auto dest: step_wf)
qed

lemma step_question_ok:
  "\<not> is_header (strip_eol row) \<Longrightarrow> is_question (strip_eol row) \<Longrightarrow>
   md_row_step st row =
     Inr (st\<lparr>questions := questions st @
               [\<lparr>q_text = the (get_question (strip_eol row)), answers = [], single = None\<rparr>],
             current_question := Ref (length (questions st)),
             sections := (sections st)
               [cur_section st := sections st ! cur_section st @ [length (questions st)]]\<rparr>)"
  by (simp add: md_row_step_def Let_def)

text \<open>
  C5. Let \<open>pre\<close> be rows with no header row among them, at the start of a text, read
  without an error, and let the rest of the text be read without an error too. A question
  row of \<open>pre\<close> raises nothing, in whatever state it is read. The questions created by
  \<open>pre\<close> are those at the addresses below \<open>length (questions st0)\<close>, one for every question
  row of \<open>pre\<close>; the dictionary is empty after \<open>pre\<close>, and at the end every address in a list
  of the dictionary is the address of a question created later. So the document returned,
  the completed view of the final state, holds none of the questions in front of the
  first header.
\<close>

theorem question_before_header_dropped:
  assumes "str_split NEW_LINE md_script = pre @ post"
    and "\<forall>r\<in>set pre. \<not> is_header (strip_eol r)"
    and "md_rows initial pre = Inr st0"
    and "md_rows st0 post = Inr st"
  shows "md_script_to_dictionary md_script = Inr (completing_dictionary (view st)) \<and>
         view st0 = [] \<and>
         length (questions st0) = length (filter (\<lambda>r. is_question (strip_eol r)) pre) \<and>
         (\<forall>(key, s)\<in>set (dictionary st). \<forall>k\<in>set (sections st ! s).
            length (questions st0) \<le> k \<and> k < length (questions st)) \<and>
         (\<forall>r\<in>set pre. is_question (strip_eol r) \<longrightarrow> (\<forall>s. \<exists>s'. md_row_step s r = Inr s'))"
proof -
  from rows_no_header [OF assms(2,3)]
  have d0: "dictionary st0 = []"
    and n0: "length (questions st0) = length (filter (\<lambda>r. is_question (strip_eol r)) pre)"
    by (simp_all add: initial_def)
  have "created_from (length (questions st0)) st0"
    by (simp add: created_from_def d0)
  from rows_created_from [OF this assms(4)]
  have low: "\<forall>(key, s)\<in>set (dictionary st). \<forall>k\<in>set (sections st ! s). length (questions st0) \<le> k"
    by (auto simp: created_from_def)
  have "wf_state st"
    using rows_wf [OF rows_wf [OF wf_initial assms(3)] assms(4)] .
  then have "\<forall>(key, s)\<in>set (dictionary st). \<forall>k\<in>set (sections st ! s). k < length (questions st)"
    by (fastforce simp: wf_state_def)
  with low have "\<forall>(key, s)\<in>set (dictionary st). \<forall>k\<in>set (sections st ! s).
      length (questions st0) \<le> k \<and> k < length (questions st)"
    by fastforce
  moreover have "md_script_to_dictionary md_script = Inr (completing_dictionary (view st))"
    by (simp add: md_script_to_dictionary_def assms(1,3,4) md_rows_append)
  moreover have "view st0 = []"
    by (simp add: view_def d0)
  moreover have "\<forall>r\<in>set pre. is_question (strip_eol r) \<longrightarrow> (\<forall>s. \<exists>s'. md_row_step s r = Inr s')"
    using assms(2) step_question_ok by blast
  ultimately show ?thesis
    using n0 by blast
qed

lemma early_question_rows:
  "str_split NEW_LINE early_question = [''* Q'', ''- !a''] @ [''# H'', ''* R'', ''- !b'']"
  by code_simp

lemma early_question_pre: "md_rows initial [''* Q'', ''- !a''] = Inr early_st0"
  by code_simp

lemma early_question_post: "md_rows early_st0 [''# H'', ''* R'', ''- !b''] = Inr early_st"
  by code_simp

theorem question_before_header_dropped_witness:
  "str_split NEW_LINE early_question = [''* Q'', ''- !a''] @ [''# H'', ''* R'', ''- !b''] \<and>
   md_rows initial [''* Q'', ''- !a''] = Inr early_st0 \<and>
   md_rows early_st0 [''# H'', ''* R'', ''- !b''] = Inr early_st \<and>
   length (questions early_st0) = 1 \<and>
   md_script_to_dictionary early_question =
     Inr [(''H'',
       [\<lparr>q_text = ''R'', answers = [\<lparr>a_text = ''b'', correct = True, weight = Some 100\<rparr>],
         single = Some True\<rparr>])]"
proof -
  have pre: "\<forall>r\<in>set [''* Q'', ''- !a'']. \<not> is_header (strip_eol r)"
    by code_simp
  have doc: "completing_dictionary (view early_st) =
     [(''H'',
       [\<lparr>q_text = ''R'', answers = [\<lparr>a_text = ''b'', correct = True, weight = Some 100\<rparr>],
         single = Some True\<rparr>])]"
    by code_simp
  have n: "length (questions early_st0) = 1"
    by code_simp
  show ?thesis
    using question_before_header_dropped
      [OF early_question_rows pre early_question_pre early_question_post]
      early_question_rows early_question_pre early_question_post doc n
    by simp
qed

section \<open>The renderers\<close>

subsection \<open>Search and substitution\<close>














subsection \<open>The inline renderer\<close>







lemma amp_search: "re_search SINGLE_LINE_CODE_PATTERN ''`&`''"
  by code_simp

lemma amp_sub:
  "re_sub SINGLE_LINE_CODE_PATTERN replace_single_line_code (sanitize_entities ''`&`'') =
   ''<code>&amp;amp;</code>''"
  by code_simp

lemma amp_no_math: "\<not> re_search SINGLE_DOLLAR_LATEX_PATTERN ''<code>&amp;amp;</code>''"
  by code_simp

lemma amp_scan_multi:
  "re_scan MULTI_LINE_CODE_PATTERN ''`&`'' = [Lit (CHR ''`''), Lit (CHR ''&''), Lit (CHR ''`'')]"
  by code_simp

lemma amp_sub_once:
  "re_sub SINGLE_LINE_CODE_PATTERN replace_single_line_code ''`&`'' = ''<code>&amp;</code>''"
  by code_simp

lemma amp_scan_image:
  "re_scan IMAGE_PATTERN ''<code>&amp;</code>'' = map Lit ''<code>&amp;</code>''"
  by code_simp

lemma amp_sub_math:
  "re_sub SINGLE_DOLLAR_LATEX_PATTERN replace_latex
     (re_sub DOUBLE_DOLLAR_LATEX_PATTERN replace_latex ''<code>&amp;</code>'') =
   ''<code>&amp;</code>''"
  by code_simp

lemma concat_io_lits: "concat_io repl (map Lit s) = Inr s"
  by (induction s) auto

lemma amp_io_multi: "re_sub_io MULTI_LINE_CODE_PATTERN repl ''`&`'' = Inr ''`&`''"
  using concat_io_lits [of repl "''`&`''"] by (simp add: re_sub_io_def amp_scan_multi del: re_scan.simps)

lemma amp_io_image:
  "re_sub_io IMAGE_PATTERN repl ''<code>&amp;</code>'' = Inr ''<code>&amp;</code>''"
  unfolding re_sub_io_def amp_scan_image by (rule concat_io_lits)

text \<open>
  C3 fails on the code. \<open>render_answer\<close> escapes the whole text and then
  \<open>replace_single_line_code\<close> escapes the span again, so an ampersand inside a code span of
  an answer comes out as \<open>&amp;amp;\<close>. \<open>render_text\<close>, which calls the same replacement
  without escaping the text first, gives \<open>&amp;\<close>.
\<close>

theorem render_answer_escapes_twice:
  "render_answer ev ''`&`'' = wrap_cdata (markdown ev ''<code>&amp;amp;</code>'') \<and>
   render_text ev ''`&`'' md_dir_path = Inr (markdown ev ''<code>&amp;</code>'')"
proof
  show "render_answer ev ''`&`'' = wrap_cdata (markdown ev ''<code>&amp;amp;</code>'')"
    by (simp add: render_answer_def amp_search amp_sub amp_no_math)
  show "render_text ev ''`&`'' md_dir_path = Inr (markdown ev ''<code>&amp;</code>'')"
    by (simp add: render_text_def amp_io_multi amp_sub_once amp_io_image amp_sub_math)
qed

subsection \<open>The block renderer: fenced code\<close>

lemma group_1: "group (a # gs) (Suc 0) = a"
  by (simp add: group_def)

lemma group_2: "group (a # b # gs) 2 = b"
  by (simp add: group_def)

lemma find_img_alone: "str_find ''{img}'' ''{img}'' = 0"
  by code_simp

lemma find_img_after: "str_find ''python{img}'' ''{img}'' = 6"
  by code_simp

lemma strip_img_after: "replace ''{img}'' [] ''python{img}'' = ''python''"
  by code_simp

lemma img_block_scan:
  "re_scan MULTI_LINE_CODE_PATTERN img_block = [Match [''{img}'', ''x = 1'' @ [NEW_LINE]]]"
  by code_simp

lemma img_block_escaped: "sanitize_entities (''x = 1'' @ [NEW_LINE]) = ''x = 1'' @ [NEW_LINE]"
  by code_simp

lemma img_block_code:
  "re_sub SINGLE_LINE_CODE_PATTERN replace_single_line_code
     (''<pre><code>'' @ (''x = 1'' @ [NEW_LINE]) @ ''</code></pre>'') =
   ''<pre><code>x = 1'' @ [NEW_LINE] @ ''</code></pre>''"
  by code_simp

lemma img_block_image:
  "re_scan IMAGE_PATTERN (''<pre><code>x = 1'' @ [NEW_LINE] @ ''</code></pre>'') =
   map Lit (''<pre><code>x = 1'' @ [NEW_LINE] @ ''</code></pre>'')"
  by code_simp

lemma img_block_math:
  "re_sub SINGLE_DOLLAR_LATEX_PATTERN replace_latex
     (re_sub DOUBLE_DOLLAR_LATEX_PATTERN replace_latex
        (''<pre><code>x = 1'' @ [NEW_LINE] @ ''</code></pre>'')) =
   ''<pre><code>x = 1'' @ [NEW_LINE] @ ''</code></pre>''"
  by code_simp

lemma img_alone_replacement:
  "replace_multi_line_code ev [''{img}'', code] =
     Inr (''<pre><code>'' @ sanitize_entities code @ ''</code></pre>'')"
  by (simp add: replace_multi_line_code_def Let_def group_1 group_2 find_img_alone)

text \<open>
  C4 fails on the code. \<open>replace_multi_line_code\<close> asks for \<open>lexer.find('{img}') > 0\<close>, so
  a language tag that starts with the token, and a tag that is the token alone, is not
  rasterized: the block is escaped and wrapped in \<open>pre\<close> and \<open>code\<close> tags. With the token
  after a language name the block is rasterized.
\<close>

theorem img_tag_alone_not_rasterized:
  "replace_multi_line_code ev [''{img}'', code] =
     Inr (''<pre><code>'' @ sanitize_entities code @ ''</code></pre>'') \<and>
   replace_multi_line_code ev [''python{img}'', code] =
     convert_code_image_base64 ev ''python'' code \<and>
   render_text ev img_block md_dir_path =
     Inr (markdown ev (''<pre><code>x = 1'' @ [NEW_LINE] @ ''</code></pre>''))"
proof (intro conjI)
  show "replace_multi_line_code ev [''{img}'', code] =
     Inr (''<pre><code>'' @ sanitize_entities code @ ''</code></pre>'')"
    by (rule img_alone_replacement)
  show "replace_multi_line_code ev [''python{img}'', code] =
     convert_code_image_base64 ev ''python'' code"
    by (simp add: replace_multi_line_code_def Let_def group_1 group_2 find_img_after strip_img_after)
  have "re_sub_io MULTI_LINE_CODE_PATTERN (replace_multi_line_code ev) img_block =
     Inr (''<pre><code>'' @ (''x = 1'' @ [NEW_LINE]) @ ''</code></pre>'')"
    unfolding re_sub_io_def img_block_scan
    using img_block_escaped by (simp add: img_alone_replacement)
  moreover have "re_sub_io IMAGE_PATTERN (replace_image ev md_dir_path)
      (''<pre><code>x = 1'' @ [NEW_LINE] @ ''</code></pre>'') =
     Inr (''<pre><code>x = 1'' @ [NEW_LINE] @ ''</code></pre>'')"
    unfolding re_sub_io_def img_block_image by (rule concat_io_lits)
  ultimately show "render_text ev img_block md_dir_path =
     Inr (markdown ev (''<pre><code>x = 1'' @ [NEW_LINE] @ ''</code></pre>''))"
    by (simp only: render_text_def img_block_code img_block_math sum.case Let_def)
qed


subsection \<open>Text without the first character of a pattern\<close>
















subsection \<open>Where the greedy quantifier stops\<close>
























end
